theory Spec2Isabelle
  imports Main
begin

section \<open>JavaScript values\<close>

text \<open>
  The values that reach \<^verbatim>\<open>File._createContent\<close> and \<^verbatim>\<open>File.setContent\<close>.
  Numbers are the integers a double holds exactly and that are written without an
  exponent (magnitude below \<open>2 ^ 53\<close>), and \<^verbatim>\<open>NaN\<close> (the truthiness test of the source
  only distinguishes zero and \<^verbatim>\<open>NaN\<close> from the other numbers); a plain object is the
  list of its own properties in the order they are enumerated, with data values only.
  Strings are byte strings.
\<close>

datatype jsval =
    JUndefined
  | JNull
  | JBool bool
  | JNum int
  | JNaN
  | JStr string
  | JArr "jsval list"
  | JObj "(string \<times> jsval) list"

text \<open>JavaScript's \<^verbatim>\<open>ToBoolean\<close>, as used by \<^verbatim>\<open>content || ''\<close>.\<close>

fun truthy :: "jsval \<Rightarrow> bool" where
  "truthy JUndefined = False"
| "truthy JNull = False"
| "truthy (JBool b) = b"
| "truthy (JNum n) = (n \<noteq> 0)"
| "truthy JNaN = False"
| "truthy (JStr s) = (s \<noteq> [])"
| "truthy (JArr xs) = True"
| "truthy (JObj kvs) = True"

text \<open>\<^verbatim>\<open>Object.prototype.toString.call(v)\<close>.\<close>

fun toStringTag :: "jsval \<Rightarrow> string" where
  "toStringTag JUndefined = ''[object Undefined]''"
| "toStringTag JNull = ''[object Null]''"
| "toStringTag (JBool b) = ''[object Boolean]''"
| "toStringTag (JNum n) = ''[object Number]''"
| "toStringTag JNaN = ''[object Number]''"
| "toStringTag (JStr s) = ''[object String]''"
| "toStringTag (JArr xs) = ''[object Array]''"
| "toStringTag (JObj kvs) = ''[object Object]''"

subsection \<open>JSON.stringify\<close>

definition digit_char :: "nat \<Rightarrow> char" where
  "digit_char d = char_of (48 + d)"

fun dec_nat :: "nat \<Rightarrow> string" where
  "dec_nat n = (if n < 10 then [digit_char n] else dec_nat (n div 10) @ [digit_char (n mod 10)])"

definition dec_int :: "int \<Rightarrow> string" where
  "dec_int i = (if i < 0 then CHR ''-'' # dec_nat (nat (- i)) else dec_nat (nat i))"

definition hex_char :: "nat \<Rightarrow> char" where
  "hex_char d = (if d < 10 then char_of (48 + d) else char_of (87 + d))"

text \<open>The escapes of \<^verbatim>\<open>QuoteJSONString\<close> for one byte.\<close>

definition quote_char :: "char \<Rightarrow> string" where
  "quote_char c =
     (let n = (of_char c :: nat) in
      if n = 34 then [CHR 0x5C, CHR 0x22]
      else if n = 92 then [CHR 0x5C, CHR 0x5C]
      else if n = 8 then [CHR 0x5C, CHR ''b'']
      else if n = 12 then [CHR 0x5C, CHR ''f'']
      else if n = 10 then [CHR 0x5C, CHR ''n'']
      else if n = 13 then [CHR 0x5C, CHR ''r'']
      else if n = 9 then [CHR 0x5C, CHR ''t'']
      else if n < 32 then [CHR 0x5C, CHR ''u'', CHR ''0'', CHR ''0'', hex_char (n div 16), hex_char (n mod 16)]
      else [c])"

definition quote :: "string \<Rightarrow> string" where
  "quote s = CHR 0x22 # concat (map quote_char s) @ [CHR 0x22]"

fun join_with :: "string \<Rightarrow> string list \<Rightarrow> string" where
  "join_with sep [] = []"
| "join_with sep [s] = s"
| "join_with sep (s # t # ts) = s @ sep @ join_with sep (t # ts)"

text \<open>
  \<^verbatim>\<open>SerializeJSONProperty\<close>: \<open>None\<close> is the result \<^verbatim>\<open>undefined\<close>. A number is
  written in plain decimal, which is what \<^verbatim>\<open>JSON.stringify\<close> writes for an integer of
  magnitude below \<open>2 ^ 53\<close>; larger ones are outside the model. A property
  whose value serializes to \<^verbatim>\<open>undefined\<close> is left out of an object; an array element
  that does is written \<^verbatim>\<open>null\<close>.
\<close>

fun serialize :: "jsval \<Rightarrow> string option"
  and serialize_elems :: "jsval list \<Rightarrow> string list"
  and serialize_props :: "(string \<times> jsval) list \<Rightarrow> string list" where
  "serialize JUndefined = None"
| "serialize JNull = Some ''null''"
| "serialize (JBool b) = Some (if b then ''true'' else ''false'')"
| "serialize (JNum n) = Some (dec_int n)"
| "serialize JNaN = Some ''null''"
| "serialize (JStr s) = Some (quote s)"
| "serialize (JArr xs) = Some (''['' @ join_with '','' (serialize_elems xs) @ '']'')"
| "serialize (JObj kvs) = Some (''{'' @ join_with '','' (serialize_props kvs) @ ''}'')"
| "serialize_elems [] = []"
| "serialize_elems (x # xs) =
     (case serialize x of None \<Rightarrow> ''null'' | Some s \<Rightarrow> s) # serialize_elems xs"
| "serialize_props [] = []"
| "serialize_props (kv # kvs) =
     (case serialize (snd kv) of
        None \<Rightarrow> serialize_props kvs
      | Some s \<Rightarrow> (quote (fst kv) @ '':'' @ s) # serialize_props kvs)"

definition JSON_stringify :: "jsval \<Rightarrow> jsval" where
  "JSON_stringify v = (case serialize v of None \<Rightarrow> JUndefined | Some s \<Rightarrow> JStr s)"

section \<open>Entries\<close>

text \<open>
  Entries are objects with identity: the tree and the two indices hold references to
  them, and \<^verbatim>\<open>setContent\<close> and \<^verbatim>\<open>addChild\<close> update them in place. An address is
  a position in the store.
\<close>

type_synonym addr = nat

text \<open>
  An element of a Directory's \<^verbatim>\<open>_entries\<close> array: a reference to an entry, or an
  array of references (what \<^verbatim>\<open>VirtualEntries.add\<close> hands to \<^verbatim>\<open>addChild\<close>).
\<close>

datatype child = Ent addr | Arr "addr list"

datatype entry =
    Directory string "child list"
  | File string jsval

fun isFile :: "entry \<Rightarrow> bool" where
  "isFile (Directory name entries) = False"
| "isFile (File name content) = True"

fun isDirectory :: "entry \<Rightarrow> bool" where
  "isDirectory (Directory name entries) = True"
| "isDirectory (File name content) = False"

fun getName :: "entry \<Rightarrow> string" where
  "getName (Directory name entries) = name"
| "getName (File name content) = name"

text \<open>
  What the source can throw. An \<open>AssertionError\<close> carries the message given to
  \<^verbatim>\<open>assert.ok\<close>; a \<open>TypeError\<close> is the runtime's (calling what is not a function,
  reading a property of \<^verbatim>\<open>undefined\<close>); \<open>RangeError\<close> is the exhausted call stack.
\<close>

datatype error = AssertionError string | TypeError string | RangeError

text \<open>Methods a prototype does not have are \<^verbatim>\<open>undefined\<close>: calling one throws.\<close>

fun getEntries :: "entry \<Rightarrow> error + child list" where
  "getEntries (Directory name entries) = Inr entries"
| "getEntries (File name content) = Inl (TypeError ''getEntries is not a function'')"

text \<open>\<^verbatim>\<open>addChild\<close> appends its whole argument list (\<^verbatim>\<open>arguments\<close>) to the children.\<close>

fun addChild :: "entry \<Rightarrow> child list \<Rightarrow> error + entry" where
  "addChild (Directory name entries) args = Inr (Directory name (entries @ args))"
| "addChild (File name content) args = Inl (TypeError ''addChild is not a function'')"

fun getContent :: "entry \<Rightarrow> error + jsval" where
  "getContent (File name content) = Inr content"
| "getContent (Directory name entries) = Inl (TypeError ''getContent is not a function'')"

fun setContent :: "entry \<Rightarrow> jsval \<Rightarrow> error + entry" where
  "setContent (File name old) content = Inr (File name content)"
| "setContent (Directory name entries) content = Inl (TypeError ''setContent is not a function'')"

definition createContent :: "jsval \<Rightarrow> jsval" where
  "createContent content =
     (if toStringTag content = ''[object Object]'' then JSON_stringify content
      else if truthy content then content else JStr [])"

text \<open>
  The constructors. \<open>new_Directory\<close> gets the argument list after the name
  (\<^verbatim>\<open>args.shift()\<close> has taken it); \<open>new_File\<close> gets the arguments after the name
  and reads the first of them, \<^verbatim>\<open>args[1]\<close>, which is \<^verbatim>\<open>undefined\<close> when absent.
\<close>

definition new_Directory :: "string \<Rightarrow> child list \<Rightarrow> entry" where
  "new_Directory name args = Directory name args"

definition new_File :: "string \<Rightarrow> jsval list \<Rightarrow> entry" where
  "new_File name rest =
     File name (createContent (case rest of [] \<Rightarrow> JUndefined | content # more \<Rightarrow> content))"

section \<open>Paths\<close>

text \<open>\<^verbatim>\<open>s.replace(SEP, '/')\<close> with \<^verbatim>\<open>SEP = /\\/g\<close>: every backslash becomes a slash.\<close>

definition SEP_replace :: "string \<Rightarrow> string" where
  "SEP_replace s = map (\<lambda>c. if c = CHR 0x5C then CHR ''/'' else c) s"

text \<open>
  \<^verbatim>\<open>path.resolve\<close> of the POSIX \<^verbatim>\<open>path\<close> module. The arguments are read from the
  last to the first, and the working directory after them, until one is absolute; empty
  ones are skipped. The joined path is split at the slashes and normalized: empty and
  \<^verbatim>\<open>.\<close> segments are dropped and \<^verbatim>\<open>..\<close> removes the segment before it (above the
  root it is dropped for an absolute path and kept for a relative one).
\<close>

fun split_slash :: "string \<Rightarrow> string list" where
  "split_slash [] = [[]]"
| "split_slash (c # cs) =
     (if c = CHR ''/'' then [] # split_slash cs
      else (case split_slash cs of [] \<Rightarrow> [[c]] | s # ss \<Rightarrow> (c # s) # ss))"

text \<open>The segments kept so far are held last first.\<close>

fun normalize_segments :: "bool \<Rightarrow> string list \<Rightarrow> string list \<Rightarrow> string list" where
  "normalize_segments allowAboveRoot res [] = rev res"
| "normalize_segments allowAboveRoot res (s # ss) =
     (if s = [] \<or> s = ''.'' then normalize_segments allowAboveRoot res ss
      else if s = ''..'' then
        (case res of
           [] \<Rightarrow> normalize_segments allowAboveRoot (if allowAboveRoot then [''..''] else []) ss
         | t # ts \<Rightarrow>
             if t = ''..''
             then normalize_segments allowAboveRoot (if allowAboveRoot then ''..'' # res else res) ss
             else normalize_segments allowAboveRoot ts ss)
      else normalize_segments allowAboveRoot (s # res) ss)"

definition normalizeString :: "string \<Rightarrow> bool \<Rightarrow> string" where
  "normalizeString path allowAboveRoot =
     join_with ''/'' (normalize_segments allowAboveRoot [] (split_slash path))"

fun resolve_loop :: "string list \<Rightarrow> string \<Rightarrow> string \<times> bool" where
  "resolve_loop [] resolvedPath = (resolvedPath, False)"
| "resolve_loop (path # paths) resolvedPath =
     (if path = [] then resolve_loop paths resolvedPath
      else if hd path = CHR ''/'' then (path @ ''/'' @ resolvedPath, True)
      else resolve_loop paths (path @ ''/'' @ resolvedPath))"

definition path_resolve :: "string \<Rightarrow> string list \<Rightarrow> string" where
  "path_resolve process_cwd args =
     (case resolve_loop (rev args @ [process_cwd]) [] of
        (resolvedPath, resolvedAbsolute) \<Rightarrow>
          let normalized = normalizeString resolvedPath (\<not> resolvedAbsolute) in
          if resolvedAbsolute then CHR ''/'' # normalized
          else if normalized \<noteq> [] then normalized else ''.'')"

section \<open>The store and the VirtualEntries object\<close>

text \<open>
  One record holds what the operations read and write: the store of entry objects
  (\<open>next_addr\<close> is the first address not yet given out), the working directory of the
  process, and the three fields of the \<^verbatim>\<open>VirtualEntries\<close> object the filesystem is
  bound to: \<open>VE_entries\<close> is \<^verbatim>\<open>_entries\<close>, \<open>VE_files\<close> is \<^verbatim>\<open>_files\<close>, \<open>VE_root\<close> is
  \<^verbatim>\<open>_root\<close>. The keys of the two indices are resolved absolute paths; they start with a
  slash, so no key is a property inherited from \<^verbatim>\<open>Object.prototype\<close> and
  \<^verbatim>\<open>name in this._entries\<close> is membership of the map's domain.
\<close>

record world =
  store :: "addr \<Rightarrow> entry"
  next_addr :: addr
  cwd :: string
  VE_entries :: "string \<rightharpoonup> addr"
  VE_files :: "string \<rightharpoonup> addr"
  VE_root :: string

text \<open>
  How a call ends: \<open>None\<close> when it returns, \<open>Some e\<close> when it throws \<open>e\<close>; the world
  is the one the call leaves behind in either case (nothing is rolled back on a throw).
\<close>

type_synonym outcome = "error option \<times> world"

definition alloc :: "world \<Rightarrow> entry \<Rightarrow> addr \<times> world" where
  "alloc w e = (next_addr w, w\<lparr>store := (store w)(next_addr w := e), next_addr := next_addr w + 1\<rparr>)"

definition createDir :: "world \<Rightarrow> string \<Rightarrow> child list \<Rightarrow> addr \<times> world" where
  "createDir w name children = alloc w (new_Directory name children)"

definition createFile :: "world \<Rightarrow> string \<Rightarrow> jsval list \<Rightarrow> addr \<times> world" where
  "createFile w name rest = alloc w (new_File name rest)"

definition getRealpath :: "world \<Rightarrow> string \<Rightarrow> string" where
  "getRealpath w name = path_resolve (cwd w) [VE_root w, name]"

definition hasEntry :: "world \<Rightarrow> string \<Rightarrow> bool" where
  "hasEntry w name =
     (let name' = SEP_replace name;
          resolved = path_resolve (cwd w) [VE_root w, name']
      in VE_entries w resolved \<noteq> None)"

definition getEntry :: "world \<Rightarrow> string \<Rightarrow> error + addr" where
  "getEntry w name =
     (let name' = SEP_replace name;
          resolved = path_resolve (cwd w) [VE_root w, name']
      in case VE_entries w resolved of
           None \<Rightarrow> Inl (AssertionError (''ENOENT '' @ name' @ '' no such file or directory.''))
         | Some a \<Rightarrow> Inr a)"

text \<open>
  \<^verbatim>\<open>VirtualEntries.getEntries\<close> (the name \<open>getEntries\<close> is the method of Directory
  here) and \<^verbatim>\<open>VirtualEntries.getFiles\<close>.
\<close>

definition getEntries_index :: "world \<Rightarrow> string \<rightharpoonup> addr" where
  "getEntries_index w = VE_entries w"

definition getFiles :: "world \<Rightarrow> string \<rightharpoonup> addr" where
  "getFiles w = VE_files w"

text \<open>
  The loop of \<^verbatim>\<open>_add\<close> over the children of a directory; \<open>rec\<close> is the recursive
  call. A child that is an array has no \<^verbatim>\<open>getName\<close>.
\<close>

fun for_content :: "(world \<Rightarrow> string \<Rightarrow> addr \<Rightarrow> outcome) \<Rightarrow> world \<Rightarrow> string \<Rightarrow> child list \<Rightarrow> outcome" where
  "for_content rec w name [] = (None, w)"
| "for_content rec w name (Arr xs # content) =
     (Some (TypeError ''content[i].getName is not a function''), w)"
| "for_content rec w name (Ent c # content) =
     (let next = name @ ''/'' @ getName (store w c) in
      case rec w (path_resolve (cwd w) [VE_root w, next]) c of
        (Some e, w') \<Rightarrow> (Some e, w')
      | (None, w') \<Rightarrow> for_content rec w' name content)"

text \<open>
  \<^verbatim>\<open>VirtualEntries._add\<close>. The first argument is the number of nested calls the call
  stack still has room for: the recursion follows the children through the store, and a
  directory that is its own descendant exhausts the stack.
\<close>

primrec add' :: "nat \<Rightarrow> world \<Rightarrow> string \<Rightarrow> addr \<Rightarrow> outcome" where
  "add' 0 w name a = (Some RangeError, w)"
| "add' (Suc depth) w name a =
     (let w1 = (if VE_entries w name \<noteq> None then w
                else w\<lparr>VE_entries := (VE_entries w)(name \<mapsto> a)\<rparr>)
      in if isDirectory (store w1 a)
         then (case getEntries (store w1 a) of
                 Inl e \<Rightarrow> (Some e, w1)
               | Inr content \<Rightarrow> for_content (add' depth) w1 name content)
         else (None, w1\<lparr>VE_files := (VE_files w1)(name \<mapsto> a)\<rparr>))"

text \<open>The argument of \<^verbatim>\<open>add\<close>: one entry, or an array of entries.\<close>

datatype add_arg = Single addr | Array "addr list"

text \<open>\<^verbatim>\<open>if (!Array.isArray(entries)) { entries = [entries]; }\<close>\<close>

definition entries_of :: "add_arg \<Rightarrow> addr list" where
  "entries_of arg = (case arg of Single a \<Rightarrow> [a] | Array as \<Rightarrow> as)"

fun add_loop :: "nat \<Rightarrow> world \<Rightarrow> addr list \<Rightarrow> outcome" where
  "add_loop depth w [] = (None, w)"
| "add_loop depth w (a # as) =
     (case add' depth w (path_resolve (cwd w) [VE_root w, getName (store w a)]) a of
        (Some e, w') \<Rightarrow> (Some e, w')
      | (None, w') \<Rightarrow> add_loop depth w' as)"

definition add :: "nat \<Rightarrow> world \<Rightarrow> add_arg \<Rightarrow> outcome" where
  "add depth w arg =
     (let entries = entries_of arg in
      case VE_entries w (VE_root w) of
        None \<Rightarrow> (Some (TypeError ''Cannot read property addChild of undefined''), w)
      | Some r \<Rightarrow>
          (case addChild (store w r) [Arr entries] of
             Inl e \<Rightarrow> (Some e, w)
           | Inr d \<Rightarrow> add_loop depth (w\<lparr>store := (store w)(r := d)\<rparr>) entries))"

text \<open>
  The constructor \<^verbatim>\<open>VirtualEntries(opt_entries)\<close>, run in a world whose store holds
  the entries made so far; \<open>None\<close> is a missing argument.
\<close>

definition new_VirtualEntries :: "nat \<Rightarrow> world \<Rightarrow> add_arg option \<Rightarrow> outcome" where
  "new_VirtualEntries depth w opt_entries =
     (let root = SEP_replace (cwd w);
          w1 = w\<lparr>VE_entries := Map.empty, VE_files := Map.empty, VE_root := root\<rparr>;
          (r, w2) = createDir w1 root [];
          w3 = w2\<lparr>VE_entries := (VE_entries w2)(root \<mapsto> r)\<rparr>
      in case opt_entries of
           None \<Rightarrow> (None, w3)
         | Some entries \<Rightarrow> add depth w3 entries)"

section \<open>The Filesystem object\<close>

text \<open>
  The functions \<^verbatim>\<open>resetSpies\<close> wraps in \<^verbatim>\<open>sinon.spy\<close>; the spy calls the function
  it wraps with the same arguments and returns what it returns, and its record of the
  calls is not modelled. A synchronous function that returns a value gives
  \<open>error + value\<close>; one that returns nothing, and every callback form, gives an
  \<open>outcome\<close>.

  A callback is any function of the caller's: it gets its one argument and the world,
  and may throw or change the world. \<open>None\<close> is a call that passes no callback, where
  \<^verbatim>\<open>cb\<close> is \<^verbatim>\<open>undefined\<close>.
\<close>

type_synonym 'a callback = "'a \<Rightarrow> world \<Rightarrow> outcome"

definition call_cb :: "'a callback option \<Rightarrow> 'a \<Rightarrow> world \<Rightarrow> outcome" where
  "call_cb cb x w =
     (case cb of None \<Rightarrow> (Some (TypeError ''cb is not a function''), w) | Some f \<Rightarrow> f x w)"

text \<open>
  The object \<^verbatim>\<open>statSync\<close> returns and \<^verbatim>\<open>stat\<close> passes on: its \<^verbatim>\<open>isDirectory\<close>
  closes over the path and looks the entry up when it is called.
\<close>

datatype stats = Stats string

definition stats_isDirectory :: "world \<Rightarrow> stats \<Rightarrow> error + bool" where
  "stats_isDirectory w st =
     (case st of Stats path \<Rightarrow>
        (case getEntry w path of Inl e \<Rightarrow> Inl e | Inr a \<Rightarrow> Inr (isDirectory (store w a))))"

definition mkdirSync :: "world \<Rightarrow> outcome" where
  "mkdirSync w = (None, w)"

definition statSync :: "world \<Rightarrow> string \<Rightarrow> error + stats" where
  "statSync w path = Inr (Stats path)"

definition stat :: "world \<Rightarrow> string \<Rightarrow> stats callback option \<Rightarrow> outcome" where
  "stat w path cb = call_cb cb (Stats path) w"

text \<open>\<^verbatim>\<open>ent.getEntries().map(function(ent) { return ent.getName(); })\<close>.\<close>

fun child_names :: "world \<Rightarrow> child list \<Rightarrow> error + string list" where
  "child_names w [] = Inr []"
| "child_names w (Arr xs # cs) = Inl (TypeError ''ent.getName is not a function'')"
| "child_names w (Ent c # cs) =
     (case child_names w cs of Inl e \<Rightarrow> Inl e | Inr names \<Rightarrow> Inr (getName (store w c) # names))"

text \<open>The first function assigned to \<^verbatim>\<open>this.readdirSync\<close> (lines 237 to 243).\<close>

definition readdirSync_first :: "world \<Rightarrow> string \<Rightarrow> error + string list" where
  "readdirSync_first w path =
     (case getEntry w path of
        Inl e \<Rightarrow> Inl e
      | Inr ent \<Rightarrow>
          if \<not> isDirectory (store w ent) then Inl (AssertionError (path @ '' is not a directory''))
          else (case getEntries (store w ent) of
                  Inl e \<Rightarrow> Inl e
                | Inr children \<Rightarrow> child_names w children))"

text \<open>
  The second function assigned to \<^verbatim>\<open>this.readdirSync\<close> (lines 245 to 251), which is
  the one the property holds afterwards.
\<close>

definition readdirSync :: "world \<Rightarrow> string \<Rightarrow> string list callback option \<Rightarrow> outcome" where
  "readdirSync w path cb =
     (case getEntry w path of
        Inl e \<Rightarrow> (Some e, w)
      | Inr ent \<Rightarrow>
          if \<not> isDirectory (store w ent) then (Some (AssertionError (path @ '' is not a directory'')), w)
          else (case getEntries (store w ent) of
                  Inl e \<Rightarrow> (Some e, w)
                | Inr children \<Rightarrow>
                    (case child_names w children of
                       Inl e \<Rightarrow> (Some e, w)
                     | Inr names \<Rightarrow> call_cb cb names w)))"

definition realpathSync :: "world \<Rightarrow> string \<Rightarrow> error + string" where
  "realpathSync w path = Inr (getRealpath w path)"

definition realpath :: "world \<Rightarrow> string \<Rightarrow> string callback option \<Rightarrow> outcome" where
  "realpath w path cb = call_cb cb (getRealpath w path) w"

definition readFileSync :: "world \<Rightarrow> string \<Rightarrow> jsval \<Rightarrow> error + jsval" where
  "readFileSync w path encoding =
     (case getEntry w path of
        Inl e \<Rightarrow> Inl e
      | Inr ent \<Rightarrow>
          if \<not> isFile (store w ent) then Inl (AssertionError (''ENOENT '' @ path @ '' no such file.''))
          else getContent (store w ent))"

definition readFile :: "world \<Rightarrow> string \<Rightarrow> jsval \<Rightarrow> jsval callback option \<Rightarrow> outcome" where
  "readFile w path encoding cb =
     (case getEntry w path of
        Inl e \<Rightarrow> (Some e, w)
      | Inr ent \<Rightarrow>
          if \<not> isFile (store w ent) then (Some (AssertionError (''ENOENT '' @ path @ '' no such file.'')), w)
          else (case getContent (store w ent) of
                  Inl e \<Rightarrow> (Some e, w)
                | Inr content \<Rightarrow> call_cb cb content w))"

definition writeFileSync :: "world \<Rightarrow> string \<Rightarrow> jsval \<Rightarrow> jsval \<Rightarrow> outcome" where
  "writeFileSync w path content encoding =
     (case getEntry w path of
        Inl e \<Rightarrow> (Some e, w)
      | Inr ent \<Rightarrow>
          if \<not> isFile (store w ent) then (Some (AssertionError (''ENOENT '' @ path @ '' no such file.'')), w)
          else (case setContent (store w ent) content of
                  Inl e \<Rightarrow> (Some e, w)
                | Inr f \<Rightarrow> (None, w\<lparr>store := (store w)(ent := f)\<rparr>)))"

text \<open>\<^verbatim>\<open>setContent\<close> returns nothing: the callback gets \<^verbatim>\<open>undefined\<close>.\<close>

definition writeFile :: "world \<Rightarrow> string \<Rightarrow> jsval \<Rightarrow> jsval \<Rightarrow> jsval callback option \<Rightarrow> outcome" where
  "writeFile w path content encoding cb =
     (case getEntry w path of
        Inl e \<Rightarrow> (Some e, w)
      | Inr ent \<Rightarrow>
          if \<not> isFile (store w ent) then (Some (AssertionError (''ENOENT '' @ path @ '' no such file.'')), w)
          else (case setContent (store w ent) content of
                  Inl e \<Rightarrow> (Some e, w)
                | Inr f \<Rightarrow> call_cb cb JUndefined (w\<lparr>store := (store w)(ent := f)\<rparr>)))"

text \<open>
  The properties \<^verbatim>\<open>resetSpies\<close> assigns on the Filesystem object, in the order of the
  source; a later assignment to a name replaces the earlier one.
\<close>

datatype fs_function =
    Fn_mkdirSync | Fn_statSync | Fn_stat | Fn_readdirSync_first | Fn_readdirSync
  | Fn_realpathSync | Fn_realpath | Fn_readFileSync | Fn_readFile | Fn_writeFileSync | Fn_writeFile

definition resetSpies_assignments :: "(string \<times> fs_function) list" where
  "resetSpies_assignments =
     [(''mkdirSync'', Fn_mkdirSync),
      (''statSync'', Fn_statSync),
      (''stat'', Fn_stat),
      (''readdirSync'', Fn_readdirSync_first),
      (''readdirSync'', Fn_readdirSync),
      (''realpathSync'', Fn_realpathSync),
      (''realpath'', Fn_realpath),
      (''readFileSync'', Fn_readFileSync),
      (''readFile'', Fn_readFile),
      (''writeFileSync'', Fn_writeFileSync),
      (''writeFile'', Fn_writeFile)]"

definition assign :: "(string \<rightharpoonup> fs_function) \<Rightarrow> string \<times> fs_function \<Rightarrow> (string \<rightharpoonup> fs_function)" where
  "assign obj kv = obj(fst kv \<mapsto> snd kv)"

definition resetSpies :: "string \<rightharpoonup> fs_function" where
  "resetSpies = foldl assign Map.empty resetSpies_assignments"

section \<open>Notions used in the statements\<close>

text \<open>An absolute POSIX path; \<^verbatim>\<open>process.cwd()\<close> is one, and so is the root made from it.\<close>

definition absolute :: "string \<Rightarrow> bool" where
  "absolute p = (p \<noteq> [] \<and> hd p = CHR ''/'')"

text \<open>A segment that normalization keeps as it is.\<close>

definition plain_segment :: "string \<Rightarrow> bool" where
  "plain_segment s = (s \<noteq> [] \<and> s \<noteq> ''.'' \<and> s \<noteq> ''..'' \<and> CHR ''/'' \<notin> set s)"

text \<open>
  What a call of \<^verbatim>\<open>_add\<close> may change: it only adds keys to the two indices and never
  replaces a key of the main one.
\<close>

definition index_grows :: "world \<Rightarrow> world \<Rightarrow> bool" where
  "index_grows w w' =
     (store w' = store w \<and> next_addr w' = next_addr w \<and> cwd w' = cwd w \<and> VE_root w' = VE_root w
      \<and> VE_entries w \<subseteq>\<^sub>m VE_entries w')"

text \<open>
  One change of the world by the operations that change it: \<^verbatim>\<open>add\<close> (also when it
  throws half way), \<^verbatim>\<open>writeFileSync\<close>, making an entry, and the two mutators of the
  entries.
\<close>

inductive mutation :: "world \<Rightarrow> world \<Rightarrow> bool" where
  by_add: "add depth w arg = (r, w') \<Longrightarrow> mutation w w'"
| by_writeFileSync: "writeFileSync w path content encoding = (r, w') \<Longrightarrow> mutation w w'"
| by_createDir: "createDir w name children = (a, w') \<Longrightarrow> mutation w w'"
| by_createFile: "createFile w name rest = (a, w') \<Longrightarrow> mutation w w'"
| by_addChild: "addChild (store w a) args = Inr d \<Longrightarrow> mutation w (w\<lparr>store := (store w)(a := d)\<rparr>)"
| by_setContent: "setContent (store w a) content = Inr f \<Longrightarrow> mutation w (w\<lparr>store := (store w)(a := f)\<rparr>)"

text \<open>
  The calls of \<^verbatim>\<open>_add\<close> that a run which returns makes, in the order it makes them, each
  with the path and the entry it is called on: a call is listed before the calls for the
  children of its directory. \<open>add_calls\<close> lists them for the loop of \<^verbatim>\<open>add\<close>. The
  entries of the list are the entries inserted via \<^verbatim>\<open>add\<close>, descendants included.
\<close>

fun content_calls ::
  "(world \<Rightarrow> string \<Rightarrow> addr \<Rightarrow> (string \<times> addr) list) \<Rightarrow> world \<Rightarrow> string \<Rightarrow> child list \<Rightarrow> (string \<times> addr) list" where
  "content_calls rec w name [] = []"
| "content_calls rec w name (Arr xs # content) = []"
| "content_calls rec w name (Ent c # content) =
     rec w (path_resolve (cwd w) [VE_root w, name @ ''/'' @ getName (store w c)]) c
     @ content_calls rec w name content"

primrec add'_calls :: "nat \<Rightarrow> world \<Rightarrow> string \<Rightarrow> addr \<Rightarrow> (string \<times> addr) list" where
  "add'_calls 0 w name a = []"
| "add'_calls (Suc depth) w name a =
     (name, a) #
     (if isDirectory (store w a)
      then (case getEntries (store w a) of
              Inl e \<Rightarrow> []
            | Inr content \<Rightarrow> content_calls (add'_calls depth) w name content)
      else [])"

fun add_calls :: "nat \<Rightarrow> world \<Rightarrow> addr list \<Rightarrow> (string \<times> addr) list" where
  "add_calls depth w [] = []"
| "add_calls depth w (a # as) =
     add'_calls depth w (path_resolve (cwd w) [VE_root w, getName (store w a)]) a
     @ add_calls depth w as"

text \<open>A path that \<^verbatim>\<open>path.resolve\<close> returns for the root of the world.\<close>

definition resolved :: "world \<Rightarrow> string \<Rightarrow> bool" where
  "resolved w k = (\<exists>name. k = path_resolve (cwd w) [VE_root w, name])"

text \<open>
  The tree under an entry has directories nested fewer than \<open>depth\<close> deep, and its
  directories hold entries only.
\<close>

primrec nests_within :: "nat \<Rightarrow> world \<Rightarrow> addr \<Rightarrow> bool" where
  "nests_within 0 w a = False"
| "nests_within (Suc depth) w a =
     (case store w a of
        File name content \<Rightarrow> True
      | Directory name content \<Rightarrow>
          list_all (\<lambda>c. case c of Ent b \<Rightarrow> nests_within depth w b | Arr xs \<Rightarrow> False) content)"

subsection \<open>Example worlds\<close>

text \<open>A process in \<^verbatim>\<open>/home/user/project\<close> that has made no entry yet.\<close>

definition process_start :: world where
  "process_start =
     \<lparr>store = (\<lambda>a. Directory [] []), next_addr = 0, cwd = ''/home/user/project'',
      VE_entries = Map.empty, VE_files = Map.empty, VE_root = []\<rparr>"

text \<open>
  \<^verbatim>\<open>createDir('root', createFile('a.txt', 'hello'), createDir('sub'))\<close>: the file is at
  address 0, \<^verbatim>\<open>sub\<close> at 1 and \<^verbatim>\<open>root\<close> at 2.
\<close>

definition made_entries :: world where
  "made_entries =
     (let (a, w1) = createFile process_start ''a.txt'' [JStr ''hello''];
          (sub, w2) = createDir w1 ''sub'' [];
          (r, w3) = createDir w2 ''root'' [Ent a, Ent sub]
      in w3)"

text \<open>\<^verbatim>\<open>new VirtualEntries(root)\<close> with that directory; its own root directory is at 3.\<close>

definition scenario :: world where
  "scenario = snd (new_VirtualEntries 1000 made_entries (Some (Single 2)))"

text \<open>The same entries, and \<^verbatim>\<open>new VirtualEntries()\<close> with no argument.\<close>

definition empty_tree :: world where
  "empty_tree = snd (new_VirtualEntries 1000 made_entries None)"

text \<open>
  \<^verbatim>\<open>v = new VirtualEntries(createFile('a.txt', 'first'))\<close>, with a second file of the
  same name made but not yet added, and then \<^verbatim>\<open>v.add(second)\<close>.
\<close>

definition one_file :: world where
  "one_file =
     (let (f1, w1) = createFile process_start ''a.txt'' [JStr ''first''];
          (f2, w2) = createFile w1 ''a.txt'' [JStr ''second'']
      in snd (new_VirtualEntries 1000 w2 (Some (Single f1))))"

definition same_path_twice :: world where
  "same_path_twice = snd (add 1000 one_file (Single 1))"

text \<open>\<^verbatim>\<open>new VirtualEntries([createFile('a\\b.txt', 'x')])\<close>: a name with a backslash.\<close>

definition backslash_name :: string where
  "backslash_name = [CHR ''a'', CHR 0x5C, CHR ''b'', CHR ''.'', CHR ''t'', CHR ''x'', CHR ''t'']"

definition with_backslash :: outcome where
  "with_backslash =
     (let (f, w1) = createFile process_start backslash_name [JStr ''x'']
      in new_VirtualEntries 1000 w1 (Some (Array [f])))"

text \<open>A callback that throws an error of its own.\<close>

definition throwing_callback :: "'a callback" where
  "throwing_callback x w = (Some (TypeError ''thrown by the callback''), w)"

section \<open>Evaluation\<close>

lemma add'_numeral:
  "add' (numeral k) w name a =
     (let w1 = (if VE_entries w name \<noteq> None then w
                else w\<lparr>VE_entries := (VE_entries w)(name \<mapsto> a)\<rparr>)
      in if isDirectory (store w1 a)
         then (case getEntries (store w1 a) of
                 Inl e \<Rightarrow> (Some e, w1)
               | Inr content \<Rightarrow> for_content (add' (pred_numeral k)) w1 name content)
         else (None, w1\<lparr>VE_files := (VE_files w1)(name \<mapsto> a)\<rparr>))"
  by (simp add: numeral_eq_Suc)

lemma add'_calls_numeral:
  "add'_calls (numeral k) w name a =
     (name, a) #
     (if isDirectory (store w a)
      then (case getEntries (store w a) of
              Inl e \<Rightarrow> []
            | Inr content \<Rightarrow> content_calls (add'_calls (pred_numeral k)) w name content)
      else [])"
  by (simp add: numeral_eq_Suc)

lemmas construct_defs = createFile_def createDir_def alloc_def new_File_def new_Directory_def
  createContent_def new_VirtualEntries_def add_def entries_of_def SEP_replace_def path_resolve_def
  normalizeString_def add'_numeral Let_def numeral_2_eq_2 numeral_3_eq_3

lemmas lookup_defs = getEntry_def hasEntry_def getRealpath_def SEP_replace_def path_resolve_def
  normalizeString_def Let_def

lemma scenario_eq:
  "scenario =
     \<lparr>store = (\<lambda>a. Directory [] [])
        (0 := File ''a.txt'' (JStr ''hello''),
         1 := Directory ''sub'' [],
         2 := Directory ''root'' [Ent 0, Ent 1],
         3 := Directory ''/home/user/project'' [Arr [2]]),
      next_addr = 4, cwd = ''/home/user/project'',
      VE_entries = [''/home/user/project'' \<mapsto> 3, ''/home/user/project/root'' \<mapsto> 2,
         ''/home/user/project/root/a.txt'' \<mapsto> 0, ''/home/user/project/root/sub'' \<mapsto> 1],
      VE_files = [''/home/user/project/root/a.txt'' \<mapsto> 0],
      VE_root = ''/home/user/project''\<rparr>"
  by (simp add: scenario_def made_entries_def process_start_def construct_defs)

lemma empty_tree_eq:
  "empty_tree =
     \<lparr>store = (\<lambda>a. Directory [] [])
        (0 := File ''a.txt'' (JStr ''hello''),
         1 := Directory ''sub'' [],
         2 := Directory ''root'' [Ent 0, Ent 1],
         3 := Directory ''/home/user/project'' []),
      next_addr = 4, cwd = ''/home/user/project'',
      VE_entries = [''/home/user/project'' \<mapsto> 3],
      VE_files = Map.empty,
      VE_root = ''/home/user/project''\<rparr>"
  by (simp add: empty_tree_def made_entries_def process_start_def construct_defs)

lemma add_empty_tree: "add 1000 empty_tree (Single 2) = (None, scenario)"
  by (simp add: empty_tree_eq scenario_eq construct_defs)

lemma one_file_eq:
  "one_file =
     \<lparr>store = (\<lambda>a. Directory [] [])
        (0 := File ''a.txt'' (JStr ''first''),
         1 := File ''a.txt'' (JStr ''second''),
         2 := Directory ''/home/user/project'' [Arr [0]]),
      next_addr = 3, cwd = ''/home/user/project'',
      VE_entries = [''/home/user/project'' \<mapsto> 2, ''/home/user/project/a.txt'' \<mapsto> 0],
      VE_files = [''/home/user/project/a.txt'' \<mapsto> 0],
      VE_root = ''/home/user/project''\<rparr>"
  by (simp add: one_file_def process_start_def construct_defs)

lemma add_one_file:
  "add 1000 one_file (Single 1) =
     (None,
      \<lparr>store = (\<lambda>a. Directory [] [])
         (0 := File ''a.txt'' (JStr ''first''),
          1 := File ''a.txt'' (JStr ''second''),
          2 := Directory ''/home/user/project'' [Arr [0], Arr [1]]),
       next_addr = 3, cwd = ''/home/user/project'',
       VE_entries = [''/home/user/project'' \<mapsto> 2, ''/home/user/project/a.txt'' \<mapsto> 0],
       VE_files = [''/home/user/project/a.txt'' \<mapsto> 1],
       VE_root = ''/home/user/project''\<rparr>)"
  by (simp add: one_file_eq construct_defs)

lemma same_path_twice_eq:
  "same_path_twice =
     \<lparr>store = (\<lambda>a. Directory [] [])
        (0 := File ''a.txt'' (JStr ''first''),
         1 := File ''a.txt'' (JStr ''second''),
         2 := Directory ''/home/user/project'' [Arr [0], Arr [1]]),
      next_addr = 3, cwd = ''/home/user/project'',
      VE_entries = [''/home/user/project'' \<mapsto> 2, ''/home/user/project/a.txt'' \<mapsto> 0],
      VE_files = [''/home/user/project/a.txt'' \<mapsto> 1],
      VE_root = ''/home/user/project''\<rparr>"
  by (simp only: same_path_twice_def add_one_file snd_conv)

lemma with_backslash_eq:
  "with_backslash =
     (None,
      \<lparr>store = (\<lambda>a. Directory [] [])
         (0 := File backslash_name (JStr ''x''),
          1 := Directory ''/home/user/project'' [Arr [0]]),
       next_addr = 2, cwd = ''/home/user/project'',
       VE_entries = [''/home/user/project'' \<mapsto> 1, ''/home/user/project/'' @ backslash_name \<mapsto> 0],
       VE_files = [''/home/user/project/'' @ backslash_name \<mapsto> 0],
       VE_root = ''/home/user/project''\<rparr>)"
  by (simp add: with_backslash_def backslash_name_def process_start_def construct_defs)

text \<open>The operations on the example tree, and the JSON text of a small object.\<close>

lemma scenario_operations:
  "readFileSync scenario ''root/a.txt'' JUndefined = Inr (JStr ''hello'')"
  "stats_isDirectory scenario (Stats ''root/sub'') = Inr True"
  "stats_isDirectory scenario (Stats ''root/a.txt'') = Inr False"
  "readFileSync scenario ''root/sub'' JUndefined = Inl (AssertionError ''ENOENT root/sub no such file.'')"
  "readdirSync scenario ''root/a.txt'' cb = (Some (AssertionError ''root/a.txt is not a directory''), scenario)"
  by (simp_all add: scenario_eq readFileSync_def readdirSync_def stats_isDirectory_def lookup_defs)

lemma json_of_small_object:
  "new_File ''a.json'' [JObj [(''k'', JNum 1)]]
     = File ''a.json'' (JStr [CHR ''{'', CHR 0x22, CHR ''k'', CHR 0x22, CHR '':'', CHR ''1'', CHR ''}''])"
  by code_simp

section \<open>Path resolution\<close>

text \<open>
  Resolving against an absolute root gives a slash followed by plain segments joined by
  slashes, and such a path resolves to itself.
\<close>

lemma split_slash_not_Nil [simp]: "split_slash s \<noteq> []"
  by (induction s) (auto split: list.splits)

lemma split_slash_append:
  "split_slash (s @ CHR ''/'' # t) = split_slash s @ split_slash t"
  by (induction s) (auto split: list.splits)

lemma split_slash_no_slash: "CHR ''/'' \<notin> set s \<Longrightarrow> split_slash s = [s]"
  by (induction s) auto

lemma split_slash_segments: "x \<in> set (split_slash s) \<Longrightarrow> CHR ''/'' \<notin> set x"
proof (induction s arbitrary: x)
  case Nil
  then show ?case by simp
next
  case (Cons c cs)
  show ?case
  proof (cases "c = CHR ''/''")
    case True
    with Cons show ?thesis by auto
  next
    case False
    obtain y ys where ys: "split_slash cs = y # ys"
      by (cases "split_slash cs") simp_all
    with False Cons.prems have "x = c # y \<or> x \<in> set ys" by simp
    moreover have "CHR ''/'' \<notin> set y" using Cons.IH [of y] ys by simp
    moreover have "x \<in> set ys \<Longrightarrow> CHR ''/'' \<notin> set x" using Cons.IH [of x] ys by simp
    ultimately show ?thesis using False by auto
  qed
qed

lemma split_join:
  "ss \<noteq> [] \<Longrightarrow> list_all (\<lambda>x. CHR ''/'' \<notin> set x) ss \<Longrightarrow> split_slash (join_with ''/'' ss) = ss"
proof (induction "''/''" ss rule: join_with.induct)
  case 1
  then show ?case by simp
next
  case (2 s)
  then show ?case by (simp add: split_slash_no_slash)
next
  case (3 s t ts)
  then show ?case by (simp add: split_slash_append split_slash_no_slash)
qed

lemma normalize_plain_result:
  "list_all plain_segment res \<Longrightarrow> list_all (\<lambda>x. CHR ''/'' \<notin> set x) ss \<Longrightarrow>
   list_all plain_segment (normalize_segments False res ss)"
proof (induction ss arbitrary: res)
  case Nil
  then show ?case by simp
next
  case (Cons s ss)
  then show ?case
    by (cases res) (auto simp: plain_segment_def)
qed

lemma normalize_plain_input:
  "list_all plain_segment xs \<Longrightarrow>
   normalize_segments ab res (xs @ ys) = normalize_segments ab (rev xs @ res) ys"
  by (induction xs arbitrary: res) (auto simp: plain_segment_def)

lemma normalizeString_of_plain:
  assumes "list_all plain_segment segs"
  shows "normalizeString (CHR ''/'' # join_with ''/'' segs @ ''/'') False = join_with ''/'' segs"
proof -
  have noslash: "list_all (\<lambda>x. CHR ''/'' \<notin> set x) segs"
    using assms by (induction segs) (auto simp: plain_segment_def)
  have sp: "split_slash (CHR ''/'' # join_with ''/'' segs @ ''/'') = [] # split_slash (join_with ''/'' segs) @ [[]]"
    using split_slash_append [of "join_with ''/'' segs" "[]"] by simp
  show ?thesis
  proof (cases "segs = []")
    case True
    then show ?thesis by (simp add: normalizeString_def)
  next
    case False
    then have "split_slash (join_with ''/'' segs) = segs"
      using noslash by (rule split_join)
    then show ?thesis
      using sp assms by (simp add: normalizeString_def normalize_plain_input)
  qed
qed

lemma path_resolve_absolute_arg:
  "absolute p \<Longrightarrow> path_resolve c [root, p] = CHR ''/'' # normalizeString (p @ ''/'') False"
  by (simp add: path_resolve_def absolute_def)

lemma path_resolve_form:
  assumes "absolute root"
  shows "\<exists>segs. list_all plain_segment segs \<and> path_resolve c [root, name] = CHR ''/'' # join_with ''/'' segs"
proof -
  have "\<exists>X. path_resolve c [root, name] = CHR ''/'' # normalizeString X False"
    using assms by (auto simp: path_resolve_def absolute_def)
  then obtain X where X: "path_resolve c [root, name] = CHR ''/'' # normalizeString X False" ..
  have "list_all plain_segment (normalize_segments False [] (split_slash X))"
    by (rule normalize_plain_result) (auto simp: list_all_iff dest: split_slash_segments)
  with X show ?thesis unfolding normalizeString_def by blast
qed

lemma path_resolve_idem:
  assumes "absolute root"
  shows "path_resolve c [root, path_resolve c [root, name]] = path_resolve c [root, name]"
proof -
  from path_resolve_form [OF assms] obtain segs where
    segs: "list_all plain_segment segs" and r: "path_resolve c [root, name] = CHR ''/'' # join_with ''/'' segs"
    by blast
  have "absolute (CHR ''/'' # join_with ''/'' segs)" by (simp add: absolute_def)
  then show ?thesis
    using normalizeString_of_plain [OF segs] r by (simp add: path_resolve_absolute_arg)
qed

section \<open>What the mutators leave alone\<close>

lemma index_grows_refl [simp]: "index_grows w w"
  by (simp add: index_grows_def)

lemma index_grows_trans: "index_grows w w' \<Longrightarrow> index_grows w' w'' \<Longrightarrow> index_grows w w''"
  by (auto simp: index_grows_def intro: map_le_trans)

lemma for_content_grows:
  assumes rec: "\<And>w k a r w'. rec w k a = (r, w') \<Longrightarrow> index_grows w w'"
  shows "for_content rec w name content = (r, w') \<Longrightarrow> index_grows w w'"
proof (induction content arbitrary: w)
  case Nil
  then show ?case by simp
next
  case (Cons c content)
  show ?case
  proof (cases c)
    case (Arr xs)
    with Cons.prems show ?thesis by simp
  next
    case (Ent b)
    obtain r1 w1 where step: "rec w (path_resolve (cwd w) [VE_root w, name @ ''/'' @ getName (store w b)]) b = (r1, w1)"
      by (cases "rec w (path_resolve (cwd w) [VE_root w, name @ ''/'' @ getName (store w b)]) b")
    have g1: "index_grows w w1" using rec [OF step] .
    show ?thesis
    proof (cases r1)
      case None
      with Cons.prems Ent step have "for_content rec w1 name content = (r, w')" by simp
      then have "index_grows w1 w'" by (rule Cons.IH)
      with g1 show ?thesis by (rule index_grows_trans)
    next
      case (Some e)
      with Cons.prems Ent step have "w' = w1" by simp
      with g1 show ?thesis by simp
    qed
  qed
qed

lemma insert_if_absent_grows:
  "index_grows w (if VE_entries w name \<noteq> None then w else w\<lparr>VE_entries := (VE_entries w)(name \<mapsto> a)\<rparr>)"
  by (auto simp: index_grows_def map_le_def)

lemma files_update_grows: "index_grows w (w\<lparr>VE_files := f\<rparr>)"
  by (simp add: index_grows_def)

lemma add'_grows: "add' depth w name a = (r, w') \<Longrightarrow> index_grows w w'"
proof (induction depth arbitrary: w name a r w')
  case 0
  then show ?case by simp
next
  case (Suc depth)
  let ?w1 = "if VE_entries w name \<noteq> None then w else w\<lparr>VE_entries := (VE_entries w)(name \<mapsto> a)\<rparr>"
  have g1: "index_grows w ?w1" by (rule insert_if_absent_grows)
  show ?case
  proof (cases "store ?w1 a")
    case (Directory n content)
    with Suc.prems have "for_content (add' depth) ?w1 name content = (r, w')"
      by (simp add: Let_def)
    then have "index_grows ?w1 w'"
      by (rule for_content_grows [rotated]) (rule Suc.IH)
    with g1 show ?thesis by (rule index_grows_trans)
  next
    case (File n c)
    with Suc.prems have "w' = ?w1\<lparr>VE_files := (VE_files ?w1)(name \<mapsto> a)\<rparr>"
      by (simp add: Let_def)
    then show ?thesis
      using index_grows_trans [OF g1 files_update_grows] by simp
  qed
qed

lemma add_loop_grows: "add_loop depth w as = (r, w') \<Longrightarrow> index_grows w w'"
proof (induction as arbitrary: w)
  case Nil
  then show ?case by simp
next
  case (Cons a as)
  obtain r1 w1 where step: "add' depth w (path_resolve (cwd w) [VE_root w, getName (store w a)]) a = (r1, w1)"
    by (cases "add' depth w (path_resolve (cwd w) [VE_root w, getName (store w a)]) a")
  have g1: "index_grows w w1" using step by (rule add'_grows)
  show ?case
  proof (cases r1)
    case None
    with Cons.prems step have "add_loop depth w1 as = (r, w')" by simp
    then have "index_grows w1 w'" by (rule Cons.IH)
    with g1 show ?thesis by (rule index_grows_trans)
  next
    case (Some e)
    with Cons.prems step have "w' = w1" by simp
    with g1 show ?thesis by simp
  qed
qed

lemma add_keeps_root: "add depth w arg = (r, w') \<Longrightarrow> VE_root w' = VE_root w \<and> cwd w' = cwd w"
  by (auto simp: add_def Let_def index_grows_def split: option.splits sum.splits dest!: add_loop_grows)

lemma writeFileSync_keeps_root:
  "writeFileSync w p c enc = (r, w') \<Longrightarrow> VE_root w' = VE_root w \<and> cwd w' = cwd w"
  by (auto simp: writeFileSync_def split: sum.splits if_splits)

lemma mutation_keeps_root: "mutation w w' \<Longrightarrow> VE_root w' = VE_root w \<and> cwd w' = cwd w"
proof (induction rule: mutation.induct)
  case (by_add depth w arg r w')
  then show ?case by (rule add_keeps_root)
next
  case (by_writeFileSync w path content encoding r w')
  then show ?case by (rule writeFileSync_keeps_root)
next
  case (by_createDir w name children a w')
  then show ?case by (auto simp: createDir_def alloc_def)
next
  case (by_createFile w name rest a w')
  then show ?case by (auto simp: createFile_def alloc_def)
next
  case (by_addChild w a args d)
  then show ?case by simp
next
  case (by_setContent w a content f)
  then show ?case by simp
qed

lemma mutations_keep_root: "mutation\<^sup>*\<^sup>* w w' \<Longrightarrow> VE_root w' = VE_root w \<and> cwd w' = cwd w"
  by (induction rule: rtranclp_induct) (auto dest: mutation_keeps_root)

text \<open>The constructor makes the root from the working directory, which is absolute.\<close>

lemma SEP_replace_absolute: "absolute p \<Longrightarrow> absolute (SEP_replace p)"
  by (cases p) (auto simp: absolute_def SEP_replace_def)

lemma new_VirtualEntries_root:
  assumes "new_VirtualEntries depth w opt_entries = (r, w')"
  shows "VE_root w' = SEP_replace (cwd w)"
proof (cases opt_entries)
  case None
  with assms show ?thesis
    by (auto simp: new_VirtualEntries_def createDir_def alloc_def Let_def)
next
  case (Some arg)
  with assms show ?thesis
    by (auto simp: new_VirtualEntries_def createDir_def alloc_def Let_def dest!: add_keeps_root)
qed

lemma new_VirtualEntries_root_absolute:
  "absolute (cwd w) \<Longrightarrow> new_VirtualEntries depth w opt_entries = (r, w') \<Longrightarrow> absolute (VE_root w')"
  by (simp add: new_VirtualEntries_root SEP_replace_absolute)

section \<open>The index after an add\<close>

lemma index_grows_store: "index_grows w w' \<Longrightarrow> store w' = store w \<and> cwd w' = cwd w \<and> VE_root w' = VE_root w"
  by (simp add: index_grows_def)

lemma map_add_first: "m ++ ([k \<mapsto> a] ++ e) = (m(k \<mapsto> a)) ++ e"
  by (rule ext) (simp add: map_add_def split: option.splits)

lemma for_content_index:
  assumes rec: "\<And>w1 k a w2. index_grows w0 w1 \<Longrightarrow> rec w1 k a = (None, w2) \<Longrightarrow>
                  VE_entries w2 = map_of (calls w0 k a) ++ VE_entries w1"
    and grows: "\<And>w k a r w'. rec w k a = (r, w') \<Longrightarrow> index_grows w w'"
  shows "index_grows w0 w \<Longrightarrow> for_content rec w name content = (None, w') \<Longrightarrow>
         VE_entries w' = map_of (content_calls calls w0 name content) ++ VE_entries w"
proof (induction content arbitrary: w)
  case Nil
  then show ?case by simp
next
  case (Cons c content)
  show ?case
  proof (cases c)
    case (Arr xs)
    with Cons.prems show ?thesis by simp
  next
    case (Ent b)
    let ?k = "path_resolve (cwd w) [VE_root w, name @ ''/'' @ getName (store w b)]"
    have same: "store w = store w0" "cwd w = cwd w0" "VE_root w = VE_root w0"
      using index_grows_store [OF Cons.prems(1)] by simp_all
    obtain r1 w1 where step: "rec w ?k b = (r1, w1)" by (cases "rec w ?k b")
    with Cons.prems(2) Ent have r1: "r1 = None" and rest: "for_content rec w1 name content = (None, w')"
      by (auto split: option.splits)
    have g: "index_grows w0 w1"
      using Cons.prems(1) grows [OF step] by (rule index_grows_trans)
    have e1: "VE_entries w1 = map_of (calls w0 ?k b) ++ VE_entries w"
      using rec [OF Cons.prems(1)] step r1 by simp
    have e2: "VE_entries w' = map_of (content_calls calls w0 name content) ++ VE_entries w1"
      using g rest by (rule Cons.IH)
    show ?thesis
      using e1 e2 Ent same by (simp add: map_add_assoc)
  qed
qed

lemma add'_index:
  "index_grows w0 w \<Longrightarrow> add' depth w name a = (None, w') \<Longrightarrow>
   VE_entries w' = map_of (add'_calls depth w0 name a) ++ VE_entries w"
proof (induction depth arbitrary: w name a w')
  case 0
  then show ?case by simp
next
  case (Suc depth)
  let ?w1 = "if VE_entries w name \<noteq> None then w else w\<lparr>VE_entries := (VE_entries w)(name \<mapsto> a)\<rparr>"
  have g1: "index_grows w0 ?w1"
    using Suc.prems(1) insert_if_absent_grows by (rule index_grows_trans)
  have same: "store ?w1 = store w0"
    using index_grows_store [OF g1] by simp
  have e1: "VE_entries ?w1 = [name \<mapsto> a] ++ VE_entries w"
    by (rule ext) (auto simp: map_add_def split: option.splits)
  show ?case
  proof (cases "store w0 a")
    case (Directory n content)
    have c: "add'_calls (Suc depth) w0 name a = (name, a) # content_calls (add'_calls depth) w0 name content"
      using Directory by simp
    from Directory Suc.prems(2) same have "for_content (add' depth) ?w1 name content = (None, w')"
      by (simp add: Let_def)
    with g1 have "VE_entries w' = map_of (content_calls (add'_calls depth) w0 name content) ++ VE_entries ?w1"
      by (rule for_content_index [rotated 2]) (erule (1) Suc.IH, erule add'_grows)
    then have "VE_entries w' = map_of (content_calls (add'_calls depth) w0 name content) ++ ([name \<mapsto> a] ++ VE_entries w)"
      by (simp only: e1)
    also have "\<dots> = (map_of (content_calls (add'_calls depth) w0 name content))(name \<mapsto> a) ++ VE_entries w"
      by (rule map_add_first)
    also have "\<dots> = map_of (add'_calls (Suc depth) w0 name a) ++ VE_entries w"
      by (simp only: c map_of.simps fst_conv snd_conv)
    finally show ?thesis .
  next
    case (File n c)
    have c: "add'_calls (Suc depth) w0 name a = [(name, a)]"
      using File by simp
    from File Suc.prems(2) same have "VE_entries w' = VE_entries ?w1"
      by (auto simp: Let_def)
    then have "VE_entries w' = [name \<mapsto> a] ++ VE_entries w"
      by (simp only: e1)
    also have "\<dots> = map_of (add'_calls (Suc depth) w0 name a) ++ VE_entries w"
      by (simp only: c map_of.simps fst_conv snd_conv)
    finally show ?thesis .
  qed
qed

lemma add_loop_index:
  "index_grows w0 w \<Longrightarrow> add_loop depth w as = (None, w') \<Longrightarrow>
   VE_entries w' = map_of (add_calls depth w0 as) ++ VE_entries w"
proof (induction as arbitrary: w)
  case Nil
  then show ?case by simp
next
  case (Cons a as)
  let ?k = "path_resolve (cwd w) [VE_root w, getName (store w a)]"
  have same: "store w = store w0" "cwd w = cwd w0" "VE_root w = VE_root w0"
    using index_grows_store [OF Cons.prems(1)] by simp_all
  obtain r1 w1 where step: "add' depth w ?k a = (r1, w1)" by (cases "add' depth w ?k a")
  with Cons.prems(2) have r1: "r1 = None" and rest: "add_loop depth w1 as = (None, w')"
    by (auto split: option.splits)
  have g: "index_grows w0 w1"
    using Cons.prems(1) add'_grows [OF step] by (rule index_grows_trans)
  have e1: "VE_entries w1 = map_of (add'_calls depth w0 ?k a) ++ VE_entries w"
    using add'_index [OF Cons.prems(1)] step r1 by simp
  have e2: "VE_entries w' = map_of (add_calls depth w0 as) ++ VE_entries w1"
    using g rest by (rule Cons.IH)
  show ?case
    using e1 e2 same by (simp add: map_add_assoc)
qed


lemma content_calls_cong:
  assumes "\<And>k a. rec w1 k a = rec w2 k a"
    and "store w1 = store w2" and "cwd w1 = cwd w2" and "VE_root w1 = VE_root w2"
  shows "content_calls rec w1 name content = content_calls rec w2 name content"
proof (induction content)
  case Nil
  then show ?case by simp
next
  case (Cons c content)
  then show ?case using assms by (cases c) simp_all
qed

lemma add'_calls_cong:
  assumes "store w1 = store w2" and "cwd w1 = cwd w2" and "VE_root w1 = VE_root w2"
  shows "add'_calls depth w1 k a = add'_calls depth w2 k a"
proof (induction depth arbitrary: k a)
  case 0
  then show ?case by simp
next
  case (Suc depth)
  have "content_calls (add'_calls depth) w1 k content = content_calls (add'_calls depth) w2 k content"
    for content
    using Suc.IH assms by (rule content_calls_cong)
  then show ?case using assms by (simp split: sum.splits)
qed

lemma add_calls_cong:
  assumes "store w1 = store w2" and "cwd w1 = cwd w2" and "VE_root w1 = VE_root w2"
  shows "add_calls depth w1 as = add_calls depth w2 as"
  using assms add'_calls_cong [OF assms] by (induction as) simp_all

lemma add_index:
  assumes "add depth w arg = (None, w')"
  shows "VE_entries w' = map_of (add_calls depth w' (entries_of arg)) ++ VE_entries w"
proof -
  from assms obtain r d where r: "VE_entries w (VE_root w) = Some r"
    and d: "addChild (store w r) [Arr (entries_of arg)] = Inr d"
    and loop: "add_loop depth (w\<lparr>store := (store w)(r := d)\<rparr>) (entries_of arg) = (None, w')"
    by (auto simp: add_def entries_of_def Let_def split: option.splits sum.splits)
  let ?w1 = "w\<lparr>store := (store w)(r := d)\<rparr>"
  have e: "VE_entries w' = map_of (add_calls depth ?w1 (entries_of arg)) ++ VE_entries ?w1"
    using index_grows_refl loop by (rule add_loop_index)
  have "index_grows ?w1 w'" using loop by (rule add_loop_grows)
  then have "add_calls depth ?w1 (entries_of arg) = add_calls depth w' (entries_of arg)"
    by (intro add_calls_cong) (simp_all add: index_grows_def)
  with e show ?thesis by simp
qed

lemma content_calls_resolved:
  assumes "\<And>k a x. resolved w k \<Longrightarrow> x \<in> set (rec w k a) \<Longrightarrow> resolved w (fst x)"
  shows "x \<in> set (content_calls rec w name content) \<Longrightarrow> resolved w (fst x)"
proof (induction content)
  case Nil
  then show ?case by simp
next
  case (Cons c content)
  show ?case
  proof (cases c)
    case (Arr xs)
    with Cons.prems show ?thesis by simp
  next
    case (Ent b)
    let ?k = "path_resolve (cwd w) [VE_root w, name @ ''/'' @ getName (store w b)]"
    have res: "resolved w ?k"
      unfolding resolved_def by blast
    from Cons.prems Ent have "x \<in> set (rec w ?k b) \<or> x \<in> set (content_calls rec w name content)"
      by simp
    then show ?thesis
      using assms [OF res] Cons.IH by blast
  qed
qed

lemma add'_calls_resolved:
  "resolved w k \<Longrightarrow> x \<in> set (add'_calls depth w k a) \<Longrightarrow> resolved w (fst x)"
proof (induction depth arbitrary: k a x)
  case 0
  then show ?case by simp
next
  case (Suc depth)
  have inner: "y \<in> set (content_calls (add'_calls depth) w k content) \<Longrightarrow> resolved w (fst y)"
    for y content
  proof -
    assume "y \<in> set (content_calls (add'_calls depth) w k content)"
    then show "resolved w (fst y)"
    proof (rule content_calls_resolved [rotated])
      fix k' a' x'
      assume "resolved w k'" and "x' \<in> set (add'_calls depth w k' a')"
      then show "resolved w (fst x')" by (rule Suc.IH)
    qed
  qed
  have "x = (k, a) \<or> (\<exists>content. x \<in> set (content_calls (add'_calls depth) w k content))"
  proof (cases "store w a")
    case (Directory n content)
    with Suc.prems(2) show ?thesis by auto
  next
    case (File n c)
    with Suc.prems(2) show ?thesis by simp
  qed
  then show ?case
  proof
    assume "x = (k, a)"
    then show ?thesis using Suc.prems(1) by simp
  next
    assume "\<exists>content. x \<in> set (content_calls (add'_calls depth) w k content)"
    then obtain content where "x \<in> set (content_calls (add'_calls depth) w k content)" ..
    then show ?thesis by (rule inner)
  qed
qed

lemma add_calls_resolved: "x \<in> set (add_calls depth w as) \<Longrightarrow> resolved w (fst x)"
proof (induction as)
  case Nil
  then show ?case by simp
next
  case (Cons a as)
  have "resolved w (path_resolve (cwd w) [VE_root w, getName (store w a)])"
    unfolding resolved_def by blast
  from Cons.prems have "x \<in> set (add'_calls depth w (path_resolve (cwd w) [VE_root w, getName (store w a)]) a)
      \<or> x \<in> set (add_calls depth w as)"
    by simp
  then show ?case
    using add'_calls_resolved [OF \<open>resolved w (path_resolve (cwd w) [VE_root w, getName (store w a)])\<close>] Cons.IH
    by blast
qed

lemma SEP_replace_no_backslash: "CHR 0x5C \<notin> set k \<Longrightarrow> SEP_replace k = k"
  by (induction k) (auto simp: SEP_replace_def)

lemma lookup_resolved:
  assumes "absolute (VE_root w)" and "resolved w k" and "CHR 0x5C \<notin> set k"
  shows "path_resolve (cwd w) [VE_root w, SEP_replace k] = k"
  using assms path_resolve_idem [OF assms(1)]
  by (auto simp: resolved_def SEP_replace_no_backslash)

lemma nests_within_cong:
  "store w1 = store w2 \<Longrightarrow> nests_within depth w1 a = nests_within depth w2 a"
proof (induction depth arbitrary: a)
  case 0
  then show ?case by simp
next
  case (Suc depth)
  then show ?case by (auto split: entry.splits child.splits simp: list_all_iff)
qed

lemma for_content_returns:
  assumes rec: "\<And>w1 k a. index_grows w0 w1 \<Longrightarrow> P a \<Longrightarrow> fst (rec w1 k a) = None"
    and grows: "\<And>w k a r w'. rec w k a = (r, w') \<Longrightarrow> index_grows w w'"
  shows "index_grows w0 w \<Longrightarrow> list_all (\<lambda>c. case c of Ent b \<Rightarrow> P b | Arr xs \<Rightarrow> False) content \<Longrightarrow>
         fst (for_content rec w name content) = None"
proof (induction content arbitrary: w)
  case Nil
  then show ?case by simp
next
  case (Cons c content)
  show ?case
  proof (cases c)
    case (Arr xs)
    with Cons.prems show ?thesis by simp
  next
    case (Ent b)
    let ?k = "path_resolve (cwd w) [VE_root w, name @ ''/'' @ getName (store w b)]"
    obtain r1 w1 where step: "rec w ?k b = (r1, w1)" by (cases "rec w ?k b")
    have "P b" using Cons.prems(2) Ent by simp
    then have r1: "r1 = None" using rec [OF Cons.prems(1), of b ?k] step by simp
    have g: "index_grows w0 w1"
      using Cons.prems(1) grows [OF step] by (rule index_grows_trans)
    have "fst (for_content rec w1 name content) = None"
      using g Cons.prems(2) by (intro Cons.IH) simp_all
    then show ?thesis using Ent step r1 by simp
  qed
qed

lemma add'_returns:
  "index_grows w0 w \<Longrightarrow> nests_within depth w0 a \<Longrightarrow> fst (add' depth w name a) = None"
proof (induction depth arbitrary: w name a)
  case 0
  then show ?case by simp
next
  case (Suc depth)
  let ?w1 = "if VE_entries w name \<noteq> None then w else w\<lparr>VE_entries := (VE_entries w)(name \<mapsto> a)\<rparr>"
  have g1: "index_grows w0 ?w1"
    using Suc.prems(1) insert_if_absent_grows by (rule index_grows_trans)
  have same: "store ?w1 = store w0"
    using index_grows_store [OF g1] by simp
  show ?case
  proof (cases "store w0 a")
    case (Directory n content)
    with Suc.prems(2) have all: "list_all (\<lambda>c. case c of Ent b \<Rightarrow> nests_within depth w0 b | Arr xs \<Rightarrow> False) content"
      by simp
    have "fst (for_content (add' depth) ?w1 name content) = None"
      using g1 all
      by (rule for_content_returns [rotated 2, where P = "nests_within depth w0"])
        (erule (1) Suc.IH, erule add'_grows)
    then show ?thesis using Directory same by (simp add: Let_def)
  next
    case (File n c)
    then show ?thesis using same by (simp add: Let_def)
  qed
qed

section \<open>The claims\<close>

subsection \<open>File content\<close>

text \<open>
  C7: the content of a File is coerced once, by the constructor: a plain object is
  stored as its JSON text (a string), a missing argument as the empty string, a string as
  it is; \<^verbatim>\<open>setContent\<close> stores its argument as it is, whatever it is, and
  \<^verbatim>\<open>getContent\<close> returns what is stored.
\<close>

theorem content_coerced_once_at_construction:
  "new_File name (JObj kvs # rest) = File name (JSON_stringify (JObj kvs))
   \<and> (\<exists>s. JSON_stringify (JObj kvs) = JStr s)
   \<and> new_File name [] = File name (JStr [])
   \<and> new_File name (JUndefined # rest) = File name (JStr [])
   \<and> new_File name (JStr s # rest) = File name (JStr s)
   \<and> setContent (new_File name rest) v = Inr (File name v)
   \<and> getContent (File name v) = Inr v"
  by (simp add: new_File_def createContent_def JSON_stringify_def)

text \<open>
  C10: a content argument that is present and falsy (\<^verbatim>\<open>0\<close>, \<^verbatim>\<open>false\<close>, \<^verbatim>\<open>null\<close>,
  \<^verbatim>\<open>NaN\<close>, the empty string; no plain object is falsy) is replaced by the empty
  string, which is what \<^verbatim>\<open>getContent\<close> then returns.
\<close>

theorem falsy_content_becomes_empty:
  "\<not> truthy content \<Longrightarrow> getContent (new_File name (content # rest)) = Inr (JStr [])"
  by (cases content) (simp_all add: new_File_def createContent_def)

theorem falsy_content_becomes_empty_witness:
  "\<not> truthy (JNum 0) \<and> getContent (new_File ''f'' [JNum 0]) = Inr (JStr [])
   \<and> \<not> truthy (JBool False) \<and> getContent (new_File ''f'' [JBool False]) = Inr (JStr [])
   \<and> \<not> truthy JNull \<and> getContent (new_File ''f'' [JNull]) = Inr (JStr [])
   \<and> \<not> truthy (JStr []) \<and> getContent (new_File ''f'' [JStr []]) = Inr (JStr [])"
  using falsy_content_becomes_empty [of "JNum 0" "''f''" "[]"]
    falsy_content_becomes_empty [of "JBool False" "''f''" "[]"]
    falsy_content_becomes_empty [of "JNull" "''f''" "[]"]
    falsy_content_becomes_empty [of "JStr []" "''f''" "[]"]
  by simp

subsection \<open>Paths that are not in the index\<close>

lemma getEntry_absent:
  "\<not> hasEntry w p \<Longrightarrow>
   getEntry w p = Inl (AssertionError (''ENOENT '' @ SEP_replace p @ '' no such file or directory.''))"
  by (simp add: hasEntry_def getEntry_def Let_def)

lemma scenario_missing: "\<not> hasEntry scenario ''missing''"
  by (simp add: scenario_eq lookup_defs)

text \<open>
  C1, as amended: for a path that resolves to no key of the index, \<^verbatim>\<open>readFile\<close> and
  \<^verbatim>\<open>writeFile\<close> in both forms, and the function the Filesystem has for reading a
  directory, throw the ENOENT assertion at the call, whatever the callback is, and leave
  the world as it was. \<^verbatim>\<open>statSync\<close> and \<^verbatim>\<open>stat\<close> do not throw at the call:
  \<^verbatim>\<open>statSync\<close> returns its object and \<^verbatim>\<open>stat\<close> calls its callback with it; the
  ENOENT assertion is thrown when \<^verbatim>\<open>isDirectory\<close> of that object is called.
\<close>

theorem absent_path_not_found:
  assumes "\<not> hasEntry w p"
  shows "readFileSync w p enc = Inl (AssertionError (''ENOENT '' @ SEP_replace p @ '' no such file or directory.''))
       \<and> readFile w p enc cb1 = (Some (AssertionError (''ENOENT '' @ SEP_replace p @ '' no such file or directory.'')), w)
       \<and> writeFileSync w p content enc = (Some (AssertionError (''ENOENT '' @ SEP_replace p @ '' no such file or directory.'')), w)
       \<and> writeFile w p content enc cb2 = (Some (AssertionError (''ENOENT '' @ SEP_replace p @ '' no such file or directory.'')), w)
       \<and> readdirSync w p cb3 = (Some (AssertionError (''ENOENT '' @ SEP_replace p @ '' no such file or directory.'')), w)
       \<and> statSync w p = Inr (Stats p)
       \<and> stat w p cb4 = call_cb cb4 (Stats p) w
       \<and> stats_isDirectory w (Stats p) = Inl (AssertionError (''ENOENT '' @ SEP_replace p @ '' no such file or directory.''))"
  using getEntry_absent [OF assms]
  by (simp add: readFileSync_def readFile_def writeFileSync_def writeFile_def readdirSync_def
      statSync_def stat_def stats_isDirectory_def)

theorem absent_path_not_found_witness:
  "\<not> hasEntry scenario ''missing''
   \<and> readFileSync scenario ''missing'' JUndefined = Inl (AssertionError ''ENOENT missing no such file or directory.'')
   \<and> readFile scenario ''missing'' JUndefined (Some throwing_callback) = (Some (AssertionError ''ENOENT missing no such file or directory.''), scenario)
   \<and> stats_isDirectory scenario (Stats ''missing'') = Inl (AssertionError ''ENOENT missing no such file or directory.'')"
  using absent_path_not_found [OF scenario_missing, of JUndefined "Some throwing_callback" JUndefined None None None]
    scenario_missing
  by (simp add: SEP_replace_def)

text \<open>
  The claim as stated fails for \<^verbatim>\<open>stat\<close>: on a path that is not in the index,
  \<^verbatim>\<open>statSync\<close> returns and \<^verbatim>\<open>stat\<close> runs its callback (the error that comes out is
  the callback's own).
\<close>

theorem stat_absent_counterexample:
  "\<not> hasEntry scenario ''missing''
   \<and> statSync scenario ''missing'' = Inr (Stats ''missing'')
   \<and> stat scenario ''missing'' (Some throwing_callback) = (Some (TypeError ''thrown by the callback''), scenario)"
  using scenario_missing by (simp add: statSync_def stat_def call_cb_def throwing_callback_def)

subsection \<open>Reading a directory\<close>

text \<open>
  C2 fails on the code: \<^verbatim>\<open>add\<close> hands its array to \<^verbatim>\<open>addChild\<close> as one argument,
  so the root directory gets the array itself as a child, and listing the root throws
  where the names of the added entries were expected. Here the root was populated with
  the directory \<^verbatim>\<open>root\<close>, and the expected list is that one name.
\<close>

theorem readdir_root_throws:
  "getEntry scenario ''/home/user/project'' = Inr 3
   \<and> store scenario 3 = Directory ''/home/user/project'' [Arr [2]]
   \<and> readdirSync scenario ''/home/user/project'' cb = (Some (TypeError ''ent.getName is not a function''), scenario)
   \<and> readdirSync_first scenario ''/home/user/project'' = Inl (TypeError ''ent.getName is not a function'')"
proof -
  have g: "getEntry scenario ''/home/user/project'' = Inr 3"
    by (simp add: scenario_eq lookup_defs)
  have s: "store scenario 3 = Directory ''/home/user/project'' [Arr [2]]"
    by (simp add: scenario_eq)
  show ?thesis
    using g s by (simp add: readdirSync_def readdirSync_first_def)
qed

text \<open>
  C3 fails on the code for \<^verbatim>\<open>readdir\<close>: the Filesystem has no property
  \<^verbatim>\<open>readdir\<close>, and \<^verbatim>\<open>readdirSync\<close> holds the callback form, so a synchronous call
  on a directory throws instead of returning the names; with a callback it passes them.
\<close>

theorem readdir_has_no_synchronous_form:
  "resetSpies ''readdir'' = None
   \<and> resetSpies ''readdirSync'' = Some Fn_readdirSync
   \<and> readdirSync scenario ''root'' None = (Some (TypeError ''cb is not a function''), scenario)
   \<and> readdirSync scenario ''root'' (Some cb) = cb [''a.txt'', ''sub''] scenario"
proof -
  have g: "getEntry scenario ''root'' = Inr 2"
    by (simp add: scenario_eq lookup_defs)
  have s: "store scenario 2 = Directory ''root'' [Ent 0, Ent 1]"
    "store scenario 0 = File ''a.txt'' (JStr ''hello'')" "store scenario 1 = Directory ''sub'' []"
    by (simp_all add: scenario_eq)
  have "resetSpies ''readdir'' = None \<and> resetSpies ''readdirSync'' = Some Fn_readdirSync"
    by (simp add: resetSpies_def resetSpies_assignments_def assign_def)
  then show ?thesis
    using g s by (simp add: readdirSync_def call_cb_def)
qed

subsection \<open>The two indices\<close>

text \<open>
  C4 fails on the code for the files-only index: after two files are added at one path,
  the main index still holds the first (address 0) and the files-only index holds the
  second (address 1).
\<close>

theorem files_index_keeps_last:
  "getEntries_index same_path_twice ''/home/user/project/a.txt'' = Some 0
   \<and> getFiles same_path_twice ''/home/user/project/a.txt'' = Some 1"
  by (simp add: same_path_twice_eq getEntries_index_def getFiles_def)

subsection \<open>Backslashes\<close>

text \<open>
  C5 fails on the code for \<^verbatim>\<open>realpath\<close>: the name made of \<^verbatim>\<open>root\<close>, a backslash
  and \<^verbatim>\<open>sub\<close> resolves to a path that still has the backslash, not to the path of
  \<^verbatim>\<open>root/sub\<close>, although \<^verbatim>\<open>getEntry\<close> finds the same entry under both names.
\<close>

theorem realpath_keeps_backslash:
  "realpathSync scenario [CHR ''r'', CHR ''o'', CHR ''o'', CHR ''t'', CHR 0x5C, CHR ''s'', CHR ''u'', CHR ''b'']
     = Inr (''/home/user/project/'' @ [CHR ''r'', CHR ''o'', CHR ''o'', CHR ''t'', CHR 0x5C, CHR ''s'', CHR ''u'', CHR ''b''])
   \<and> realpathSync scenario ''root/sub'' = Inr ''/home/user/project/root/sub''
   \<and> getEntry scenario [CHR ''r'', CHR ''o'', CHR ''o'', CHR ''t'', CHR 0x5C, CHR ''s'', CHR ''u'', CHR ''b''] = Inr 1
   \<and> getEntry scenario ''root/sub'' = Inr 1"
  by (simp add: scenario_eq realpathSync_def lookup_defs)

subsection \<open>Writing and reading\<close>

lemma getEntry_store_update [simp]: "getEntry (w\<lparr>store := s\<rparr>) p = getEntry w p"
  by (simp add: getEntry_def)

text \<open>
  C6: when the path resolves to a File, \<^verbatim>\<open>writeFileSync\<close> returns, and in the world it
  leaves \<^verbatim>\<open>readFileSync\<close> of the same path returns the very value written and
  \<^verbatim>\<open>readFile\<close> passes that value to its callback; the callback form \<^verbatim>\<open>writeFile\<close>
  runs its callback in that same world.
\<close>

theorem write_then_read:
  assumes "getEntry w p = Inr a" and "isFile (store w a)"
  shows "\<exists>w'. writeFileSync w p X enc = (None, w')
            \<and> readFileSync w' p enc' = Inr X
            \<and> readFile w' p enc' cb = call_cb cb X w'
            \<and> writeFile w p X enc cb' = call_cb cb' JUndefined w'"
proof -
  from assms(2) obtain name old where f: "store w a = File name old"
    by (cases "store w a") simp_all
  let ?w' = "w\<lparr>store := (store w)(a := File name X)\<rparr>"
  have "writeFileSync w p X enc = (None, ?w')"
    using assms(1) f by (simp add: writeFileSync_def)
  moreover have "readFileSync ?w' p enc' = Inr X"
    using assms(1) by (simp add: readFileSync_def)
  moreover have "readFile ?w' p enc' cb = call_cb cb X ?w'"
    using assms(1) by (simp add: readFile_def)
  moreover have "writeFile w p X enc cb' = call_cb cb' JUndefined ?w'"
    using assms(1) f by (simp add: writeFile_def)
  ultimately show ?thesis by blast
qed

lemma scenario_a_txt:
  "getEntry scenario ''root/a.txt'' = Inr 0" "isFile (store scenario 0)"
  by (simp_all add: scenario_eq lookup_defs)

theorem write_then_read_witness:
  "getEntry scenario ''root/a.txt'' = Inr 0 \<and> isFile (store scenario 0)
   \<and> (\<exists>w'. writeFileSync scenario ''root/a.txt'' (JStr ''X'') JUndefined = (None, w')
          \<and> readFileSync w' ''root/a.txt'' JUndefined = Inr (JStr ''X''))"
  using write_then_read [OF scenario_a_txt, of "JStr ''X''" JUndefined JUndefined None None] scenario_a_txt
  by blast

subsection \<open>realpath\<close>

text \<open>
  C8: \<^verbatim>\<open>realpath\<close> never throws and its result is a function of the name and the
  root alone: it is the same after any sequence of changes of the tree and for any
  contents of the store and the indices; resolving its result again gives the result
  back; the callback form passes the same path to its callback. The root is an absolute
  path, as the constructor makes it.
\<close>

theorem realpath_pure_idempotent:
  assumes "absolute (VE_root w)" and "mutation\<^sup>*\<^sup>* w w'"
  shows "realpathSync w name = Inr (getRealpath w name)
       \<and> realpathSync w' name = realpathSync w name
       \<and> realpathSync (w\<lparr>store := s, VE_entries := es, VE_files := fs\<rparr>) name = realpathSync w name
       \<and> realpathSync w (getRealpath w name) = Inr (getRealpath w name)
       \<and> realpath w name cb = call_cb cb (getRealpath w name) w"
  using mutations_keep_root [OF assms(2)] path_resolve_idem [OF assms(1)]
  by (simp add: realpathSync_def realpath_def getRealpath_def)

lemma scenario_root_absolute: "absolute (VE_root scenario)"
  by (simp add: scenario_eq absolute_def)

lemma scenario_written:
  "mutation\<^sup>*\<^sup>* scenario (snd (writeFileSync scenario ''root/a.txt'' (JStr ''X'') JUndefined))"
  by (rule r_into_rtranclp, rule by_writeFileSync) (rule surjective_pairing)

theorem realpath_pure_idempotent_witness:
  "absolute (VE_root scenario)
   \<and> realpathSync scenario ''root/../x'' = Inr ''/home/user/project/x''
   \<and> realpathSync (snd (writeFileSync scenario ''root/a.txt'' (JStr ''X'') JUndefined)) ''root/../x''
       = Inr ''/home/user/project/x''
   \<and> realpathSync scenario ''/home/user/project/x'' = Inr ''/home/user/project/x''
   \<and> \<not> hasEntry scenario ''root/../x''"
proof -
  have r: "getRealpath scenario ''root/../x'' = ''/home/user/project/x''"
    by (simp add: scenario_eq lookup_defs)
  have h: "\<not> hasEntry scenario ''root/../x''"
    by (simp add: scenario_eq lookup_defs)
  show ?thesis
    using realpath_pure_idempotent [OF scenario_root_absolute scenario_written, of "''root/../x''"]
      scenario_root_absolute r h
    by simp
qed

subsection \<open>Entries that were added\<close>

lemma add_loop_returns:
  "index_grows w0 w \<Longrightarrow> list_all (nests_within depth w0) as \<Longrightarrow> fst (add_loop depth w as) = None"
proof (induction as arbitrary: w)
  case Nil
  then show ?case by simp
next
  case (Cons a as)
  let ?k = "path_resolve (cwd w) [VE_root w, getName (store w a)]"
  obtain r1 w1 where step: "add' depth w ?k a = (r1, w1)" by (cases "add' depth w ?k a")
  have "fst (add' depth w ?k a) = None"
    using Cons.prems by (intro add'_returns [of w0]) simp_all
  with step have r1: "r1 = None" by simp
  have g: "index_grows w0 w1"
    using Cons.prems(1) add'_grows [OF step] by (rule index_grows_trans)
  have "fst (add_loop depth w1 as) = None"
    using g Cons.prems(2) by (intro Cons.IH) simp_all
  then show ?case using step r1 by simp
qed

text \<open>
  \<^verbatim>\<open>add\<close> returns when the root directory is in the index and the stack has room for
  the nesting of the added trees.
\<close>

lemma add_returns:
  assumes "VE_entries w (VE_root w) = Some r" and "addChild (store w r) [Arr (entries_of arg)] = Inr d"
    and "list_all (nests_within depth (w\<lparr>store := (store w)(r := d)\<rparr>)) (entries_of arg)"
  shows "fst (add depth w arg) = None"
proof -
  have "fst (add_loop depth (w\<lparr>store := (store w)(r := d)\<rparr>) (entries_of arg)) = None"
    using index_grows_refl assms(3) by (rule add_loop_returns)
  then show ?thesis
    using assms(1,2) by (simp add: add_def entries_of_def Let_def)
qed

text \<open>
  What does hold after a call of \<^verbatim>\<open>add\<close> that returns: for every entry it inserted
  (the added entries and all descendants of the added directories, each with the path
  \<^verbatim>\<open>_add\<close> computed for it) whose path has no backslash, \<^verbatim>\<open>hasEntry\<close> of the path is
  true and \<^verbatim>\<open>getEntry\<close> of the path returns the entry the index already had at that path
  or, when it had none, the first entry this call inserted there.
\<close>

lemma added_entries_found:
  assumes "add depth w arg = (None, w')" and "absolute (VE_root w)"
    and "(k, a) \<in> set (add_calls depth w' (entries_of arg))" and "CHR 0x5C \<notin> set k"
  shows "\<exists>b. (map_of (add_calls depth w' (entries_of arg)) ++ VE_entries w) k = Some b
           \<and> hasEntry w' k \<and> getEntry w' k = Inr b"
proof -
  have idx: "VE_entries w' = map_of (add_calls depth w' (entries_of arg)) ++ VE_entries w"
    using assms(1) by (rule add_index)
  have root: "VE_root w' = VE_root w"
    using add_keeps_root [OF assms(1)] by simp
  have "resolved w' k"
    using add_calls_resolved [OF assms(3)] by simp
  then have key: "path_resolve (cwd w') [VE_root w', SEP_replace k] = k"
    using assms(2,4) root by (intro lookup_resolved) simp_all
  have "map_of (add_calls depth w' (entries_of arg)) k \<noteq> None"
    using assms(3) by (simp add: map_of_eq_None_iff image_iff) force
  then obtain b where b: "(map_of (add_calls depth w' (entries_of arg)) ++ VE_entries w) k = Some b"
    by (cases "VE_entries w k") (auto simp: map_add_def)
  then have "VE_entries w' k = Some b" using idx by simp
  then have "hasEntry w' k \<and> getEntry w' k = Inr b"
    using key by (simp add: hasEntry_def getEntry_def Let_def)
  with b show ?thesis by (intro exI [of _ b]) simp
qed

lemma scenario_calls:
  "add_calls 1000 scenario (entries_of (Single 2)) =
     [(''/home/user/project/root'', 2), (''/home/user/project/root/a.txt'', 0),
      (''/home/user/project/root/sub'', 1)]"
  by (simp add: scenario_eq entries_of_def add'_calls_numeral path_resolve_def normalizeString_def)

lemma same_path_twice_calls:
  "add_calls 1000 same_path_twice (entries_of (Single (Suc 0))) = [(''/home/user/project/a.txt'', Suc 0)]"
  by (simp add: same_path_twice_eq entries_of_def add'_calls_numeral path_resolve_def normalizeString_def)

lemma added_entries_found_at_examples:
  "add 1000 empty_tree (Single 2) = (None, scenario)
   \<and> absolute (VE_root empty_tree)
   \<and> (''/home/user/project/root/a.txt'', 0) \<in> set (add_calls 1000 scenario (entries_of (Single 2)))
   \<and> CHR 0x5C \<notin> set ''/home/user/project/root/a.txt''
   \<and> hasEntry scenario ''/home/user/project/root/a.txt''
   \<and> getEntry scenario ''/home/user/project/root/a.txt'' = Inr 0
   \<and> add 1000 one_file (Single 1) = (None, same_path_twice)
   \<and> (''/home/user/project/a.txt'', 1) \<in> set (add_calls 1000 same_path_twice (entries_of (Single 1)))
   \<and> VE_entries one_file ''/home/user/project/a.txt'' = Some 0
   \<and> getEntry same_path_twice ''/home/user/project/a.txt'' = Inr 0"
proof -
  have a1: "add 1000 empty_tree (Single 2) = (None, scenario)"
    by (rule add_empty_tree)
  have r1: "absolute (VE_root empty_tree)"
    by (simp add: empty_tree_eq absolute_def)
  have m1: "(''/home/user/project/root/a.txt'', 0) \<in> set (add_calls 1000 scenario (entries_of (Single 2)))"
    by (simp add: scenario_calls)
  have n1: "CHR 0x5C \<notin> set ''/home/user/project/root/a.txt''"
    by simp
  have e1: "VE_entries empty_tree ''/home/user/project/root/a.txt'' = None"
    by (simp add: empty_tree_eq)
  have a2: "add 1000 one_file (Single 1) = (None, same_path_twice)"
    by (simp only: same_path_twice_eq add_one_file)
  have r2: "absolute (VE_root one_file)"
    by (simp add: one_file_eq absolute_def)
  have m2: "(''/home/user/project/a.txt'', 1) \<in> set (add_calls 1000 same_path_twice (entries_of (Single 1)))"
    by (simp add: same_path_twice_calls)
  have n2: "CHR 0x5C \<notin> set ''/home/user/project/a.txt''"
    by simp
  have e2: "VE_entries one_file ''/home/user/project/a.txt'' = Some 0"
    by (simp add: one_file_eq)
  have "hasEntry scenario ''/home/user/project/root/a.txt''
      \<and> getEntry scenario ''/home/user/project/root/a.txt'' = Inr 0"
    using added_entries_found [OF a1 r1 m1 n1] e1 by (simp add: scenario_calls map_add_def)
  moreover have "getEntry same_path_twice ''/home/user/project/a.txt'' = Inr 0"
    using added_entries_found [OF a2 r2 m2 n2] e2 by (simp add: map_add_def)
  ultimately show ?thesis
    using a1 r1 m1 n1 a2 m2 e2 by simp
qed

text \<open>
  C9 fails on the code for an entry whose name has a backslash: \<^verbatim>\<open>add\<close> returns and
  puts the entry in the index under a path that keeps the backslash, because \<^verbatim>\<open>add\<close>
  and \<^verbatim>\<open>_add\<close> resolve the name without the replacement of backslashes that
  \<^verbatim>\<open>hasEntry\<close> and \<^verbatim>\<open>getEntry\<close> apply. Those two look under the path with slashes,
  so \<^verbatim>\<open>hasEntry\<close> is false and \<^verbatim>\<open>getEntry\<close> throws for the entry that was inserted,
  under its path and under its name alike.
\<close>

theorem backslash_entry_not_found:
  "fst with_backslash = None
   \<and> VE_entries (snd with_backslash) (''/home/user/project/'' @ backslash_name) = Some 0
   \<and> \<not> hasEntry (snd with_backslash) (''/home/user/project/'' @ backslash_name)
   \<and> \<not> hasEntry (snd with_backslash) backslash_name
   \<and> getEntry (snd with_backslash) backslash_name = Inl (AssertionError ''ENOENT a/b.txt no such file or directory.'')"
  by (simp add: with_backslash_eq backslash_name_def lookup_defs)

end
